theory Spec2Isabelle
  imports Complex_Main "HOL-Library.Word"
begin

unbundle bit_operations_syntax

section \<open>JavaScript values\<close>

text \<open>
  A JavaScript string is a sequence of 16-bit code units; \<open>js\<close> embeds an ASCII literal.
  A number is a real here, and a number that may be \<open>NaN\<close> is a \<open>real option\<close> with
  \<open>None\<close> for \<open>NaN\<close>; infinities do not occur. JavaScript computes with doubles, which
  round; the model computes exactly. On the values of the codec the two agree: a word
  \<open>w\<close> of a record is a whole number below \<open>2 ^ 16\<close>, the double \<open>w / 10\<close> times 10 is
  \<open>w\<close> again, and a percentage divided by 100 is the same double whenever it is computed.
  Where amounts are converted, multiplied and summed (the total of a log), the theorems
  equate results of the same operations on the same operands in the same order.
\<close>

type_synonym jsstring = "16 word list"

definition js :: "string \<Rightarrow> jsstring" where
  "js s = map (\<lambda>c. word_of_nat (of_char c)) s"

text \<open>\<open>s.charCodeAt(i)\<close>: the code unit at \<open>i\<close>, \<open>NaN\<close> outside the string.\<close>

definition charCodeAt :: "jsstring \<Rightarrow> nat \<Rightarrow> 16 word option" where
  "charCodeAt s i = (if i < length s then Some (s ! i) else None)"

text \<open>\<open>s.substring(a, b)\<close> for \<open>a \<le> b\<close> (the only use here) and \<open>s.substring(a)\<close>.\<close>

definition substring :: "nat \<Rightarrow> nat \<Rightarrow> jsstring \<Rightarrow> jsstring" where
  "substring a b s = take (b - a) (drop a s)"

definition substringFrom :: "nat \<Rightarrow> jsstring \<Rightarrow> jsstring" where
  "substringFrom a s = drop a s"

text \<open>
  The bitwise operators work on 32-bit integers. \<open>toInt32\<close> is the conversion of a char
  code that they apply to their operand; it takes \<open>NaN\<close> to 0.
\<close>

definition toInt32 :: "16 word option \<Rightarrow> 32 word" where
  "toInt32 c = (case c of None \<Rightarrow> 0 | Some w \<Rightarrow> ucast w)"

text \<open>\<open>String.fromCharCode\<close> keeps the low 16 bits of each argument.\<close>

definition fromCharCode :: "32 word \<Rightarrow> 16 word" where
  "fromCharCode x = ucast x"

text \<open>\<open>Math.round\<close>: the nearest integer, a tie going up.\<close>

definition Math_round :: "real \<Rightarrow> int" where
  "Math_round x = \<lfloor>x + 1 / 2\<rfloor>"

text \<open>\<open>Number(x) || 0\<close>: \<open>NaN\<close> becomes 0.\<close>

definition orZero :: "real option \<Rightarrow> real" where
  "orZero x = (case x of None \<Rightarrow> 0 | Some r \<Rightarrow> r)"

text \<open>
  \<open>toLowerCase\<close> on the code units A to Z. No other code unit lower-cases to a hex digit
  or to \<open>#\<close>, so the colour test below sees what the source's test sees.
\<close>

definition lowerUnit :: "16 word \<Rightarrow> 16 word" where
  "lowerUnit c = (if 65 \<le> c \<and> c \<le> 90 then c + 32 else c)"

definition toLowerCase :: "jsstring \<Rightarrow> jsstring" where
  "toLowerCase s = map lowerUnit s"

text \<open>The character class \<open>[0-9a-f]\<close> and the test \<open>/^#[0-9a-f]{3}$/\<close>.\<close>

definition isLowerHex :: "16 word \<Rightarrow> bool" where
  "isLowerHex c = ((48 \<le> c \<and> c \<le> 57) \<or> (97 \<le> c \<and> c \<le> 102))"

definition isHexColor :: "jsstring \<Rightarrow> bool" where
  "isHexColor s =
     (case s of [h, a, b, c] \<Rightarrow> h = 35 \<and> isLowerHex a \<and> isLowerHex b \<and> isLowerHex c
      | _ \<Rightarrow> False)"

text \<open>
  \<open>parseInt(s, 16)\<close>: the value of the longest prefix of hex digits, \<open>NaN\<close> when there is
  none. (Leading blanks, a sign and a \<open>0x\<close> prefix are left out: the argument is always three
  characters that passed the colour test.)
\<close>

definition hexValue :: "16 word \<Rightarrow> nat option" where
  "hexValue c =
     (if 48 \<le> c \<and> c \<le> 57 then Some (unat c - 48)
      else if 97 \<le> c \<and> c \<le> 102 then Some (unat c - 87)
      else if 65 \<le> c \<and> c \<le> 70 then Some (unat c - 55)
      else None)"

fun parseHex :: "nat \<Rightarrow> jsstring \<Rightarrow> nat" where
  "parseHex acc [] = acc"
| "parseHex acc (c # cs) =
     (case hexValue c of None \<Rightarrow> acc | Some v \<Rightarrow> parseHex (16 * acc + v) cs)"

definition parseInt16 :: "jsstring \<Rightarrow> nat option" where
  "parseInt16 s =
     (case s of [] \<Rightarrow> None
      | c # cs \<Rightarrow> (case hexValue c of None \<Rightarrow> None | Some v \<Rightarrow> Some (parseHex v cs)))"

text \<open>\<open>n.toString(16)\<close> for a whole number \<open>n \<ge> 0\<close>, and \<open>padStart\<close> with one character.\<close>

definition hexDigit :: "nat \<Rightarrow> 16 word" where
  "hexDigit d = (if d < 10 then word_of_nat (48 + d) else word_of_nat (87 + d))"

fun toString16 :: "nat \<Rightarrow> jsstring" where
  "toString16 n = (if n < 16 then [hexDigit n] else toString16 (n div 16) @ [hexDigit (n mod 16)])"

declare toString16.simps [simp del]

definition padStart :: "nat \<Rightarrow> 16 word \<Rightarrow> jsstring \<Rightarrow> jsstring" where
  "padStart n c s = replicate (n - length s) c @ s"

section \<open>Amounts as text (Fluid.convertAmount and Fluid.representAmount)\<close>

text \<open>
  \<open>String(x)\<close> for a number with at most one digit after the decimal point, the only
  numbers that \<open>representAmount\<close> prints: a minus sign for a negative number, the whole
  part in decimal digits, and a point with the digit of the tenths when that digit is
  not 0. (A number of \<open>10 ^ 21\<close> or more prints with an exponent; that is not modelled.)
\<close>

fun decimalDigits :: "nat \<Rightarrow> jsstring" where
  "decimalDigits n =
     (if n < 10 then [word_of_nat (48 + n)]
      else decimalDigits (n div 10) @ [word_of_nat (48 + n mod 10)])"

declare decimalDigits.simps [simp del]

definition numberToString :: "real \<Rightarrow> jsstring" where
  "numberToString x =
     (let tenths = nat \<lfloor>\<bar>x\<bar> * 10\<rfloor>
      in (if x < 0 then js ''-'' else [])
         @ decimalDigits (tenths div 10)
         @ (if tenths mod 10 = 0 then [] else js ''.'' @ decimalDigits (tenths mod 10)))"

text \<open>The sign that the text of a whole number of tenths starts with.\<close>

definition signText :: "int \<Rightarrow> jsstring" where
  "signText k = (if k < 0 then js ''-'' else [])"

text \<open>\<open>Fluid.convertAmount\<close>: one ounce is 29.5735295625 millilitres.\<close>

definition convertAmount :: "real \<Rightarrow> bool \<Rightarrow> bool \<Rightarrow> real" where
  "convertAmount amt fromOZ toOZ =
     (if fromOZ = toOZ then amt
      else if fromOZ \<and> \<not> toOZ then amt * 29.5735295625
      else amt / 29.5735295625)"

text \<open>
  \<open>Fluid.representAmount\<close>:
  \<^verbatim>\<open>
  if (toOZ) {
      let number = String(Math.round(converted * 10) / 10);
      if (!number.includes(".")) number += ".0";
      return number + "oz";
  }
  return Math.round(converted) + "mL";
  \<close>
\<close>

definition representAmount :: "real \<Rightarrow> bool \<Rightarrow> bool \<Rightarrow> jsstring" where
  "representAmount amt fromOZ toOZ =
     (let converted = convertAmount amt fromOZ toOZ
      in if toOZ
         then (let number = numberToString (of_int (Math_round (converted * 10)) / 10)
               in (if 46 \<in> set number then number else number @ js ''.0'') @ js ''oz'')
         else numberToString (of_int (Math_round converted)) @ js ''mL'')"

section \<open>Fluids (class Fluid of classes.js)\<close>

text \<open>
  The fields of a Fluid object. \<open>hydration\<close> is the ratio, \<open>data\<close> the encoded record
  that the constructor builds, \<open>index\<close> the saved index, \<open>-1\<close> while the fluid is not saved.
\<close>

record Fluid =
  name :: jsstring
  color :: jsstring
  hydration :: real
  alwaysShown :: bool
  data :: jsstring
  index :: int

text \<open>
  The constructor. The warning that it logs for an invalid colour is not modelled.
  The first word of the record is \<^verbatim>\<open>(alwaysShown << 15) | (hydration << 8) | (name.length)\<close>
  (\<open>fluidHeader\<close>), the second \<^verbatim>\<open>parseInt(color.substring(1, 4), 16)\<close>, as \<open>String.fromCharCode\<close> stores them.
\<close>

definition fluidHeader :: "bool \<Rightarrow> int \<Rightarrow> nat \<Rightarrow> 32 word" where
  "fluidHeader shown hyd len =
     push_bit 15 (of_bool shown) OR push_bit 8 (word_of_int hyd) OR word_of_nat len"

definition Fluid_new :: "jsstring \<Rightarrow> jsstring \<Rightarrow> real option \<Rightarrow> bool \<Rightarrow> Fluid" where
  "Fluid_new name0 color0 hydration0 alwaysShown0 =
     (let nm = take 31 name0;
          lower = toLowerCase color0;
          col = (if isHexColor lower then lower else js ''#999'');
          hyd = max 0 (min 100 (Math_round (orZero hydration0)));
          word1 = fromCharCode (fluidHeader alwaysShown0 hyd (length nm));
          word2 = (case parseInt16 (substring 1 4 col) of None \<Rightarrow> 0 | Some v \<Rightarrow> word_of_nat v)
      in \<lparr>name = nm, color = col, hydration = of_int hyd / 100,
          alwaysShown = alwaysShown0, data = word1 # word2 # nm, index = -1\<rparr>)"

text \<open>
  \<open>Fluid.decode\<close>, the layout \<^verbatim>\<open>Shhhhhhh000LLLLL 0000rrrrggggbbbb [name]\<close>. The flag it
  hands to the constructor is the number \<^verbatim>\<open>complicated >> 15\<close>, which \<open>Boolean\<close> takes to
  true when it is not 0.
\<close>

definition Fluid_decode :: "jsstring \<Rightarrow> Fluid" where
  "Fluid_decode d =
     (let col = js ''#'' @ padStart 3 48 (toString16 (unat (toInt32 (charCodeAt d 1) AND 0x0FFF)));
          complicated = toInt32 (charCodeAt d 0);
          shown = signed_drop_bit 15 complicated;
          hyd = min 100 (sint (signed_drop_bit 8 complicated AND 127));
          nameLength = complicated AND 31;
          nm = substring 2 (2 + unat nameLength) d
      in Fluid_new nm col (Some (of_int hyd)) (shown \<noteq> 0))"

text \<open>
  \<open>Fluid.decodeCollection\<close>: the records of a buffer, one after the other, each fluid
  indexed by its position. \<open>null\<close> (no stored item) gives the empty list. The loop
  goes on while \<open>pos < data.length\<close>; every record has at least its two header words.
\<close>

function decodeCollection_loop :: "jsstring \<Rightarrow> nat \<Rightarrow> int \<Rightarrow> Fluid list" where
  "decodeCollection_loop d pos i =
     (if pos < length d
      then (Fluid_decode (substringFrom pos d))\<lparr>index := i\<rparr>
             # decodeCollection_loop d (pos + length (data (Fluid_decode (substringFrom pos d)))) (i + 1)
      else [])"
  by pat_completeness auto
termination
proof (relation "measure (\<lambda>(d, pos, i). length d - pos)")
  show "wf (measure (\<lambda>(d, pos, i). length d - pos))" by simp
next
  fix d :: jsstring and pos :: nat and i :: int
  assume "pos < length d"
  moreover have "0 < length (data (Fluid_decode (substringFrom pos d)))"
    by (simp add: Fluid_decode_def Fluid_new_def Let_def)
  ultimately have "length d - (pos + length (data (Fluid_decode (substringFrom pos d))))
      < length d - pos"
    by arith
  then show "((d, pos + length (data (Fluid_decode (substringFrom pos d))), i + 1), (d, pos, i))
      \<in> measure (\<lambda>(d, pos, i). length d - pos)"
    by simp
qed

declare decodeCollection_loop.simps [simp del]

definition decodeCollection :: "jsstring option \<Rightarrow> Fluid list" where
  "decodeCollection d = (case d of None \<Rightarrow> [] | Some s \<Rightarrow> decodeCollection_loop s 0 0)"

section \<open>The registry (the static fields of Fluid and the stored item)\<close>

text \<open>
  Fluid objects are shared: the arrays \<open>Fluid.saved\<close> and \<open>Fluid.shown\<close>, the entries of
  a log and the argument of \<open>Fluid.save\<close> hold references to them, and \<open>Fluid.save\<close>
  assigns the \<open>index\<close> field of the object it is given. So the objects live in a heap,
  addressed by references, and the arrays are lists of references. \<open>stored\<close> is the item
  \<open>moist:fluids\<close> of \<open>localStorage\<close>, \<open>None\<close> while it was never set.
\<close>

type_synonym ref = nat

record registry =
  heap :: "ref \<Rightarrow> Fluid"
  saved :: "ref list"
  shown :: "ref list"
  stored :: "jsstring option"

datatype error = TypeError

text \<open>
  What a caller hands to \<open>Fluid.save\<close> and \<open>Fluid.show\<close>: an array of fluids, as the
  parameter is declared, or a single Fluid object, which is what \<open>Entry.encode\<close> passes.
\<close>

datatype fluidsArg = Array "ref list" | Object ref

text \<open>\<open>a[i]\<close> for an index that may be \<open>NaN\<close>: \<open>undefined\<close> outside the array.\<close>

definition nthOpt :: "'a list \<Rightarrow> nat \<Rightarrow> 'a option" where
  "nthOpt xs i = (if i < length xs then Some (xs ! i) else None)"

text \<open>
  One round of the loop of \<open>Fluid.save\<close>, for the fluid at \<open>p\<close>; \<open>n\<close> is \<open>fluids.length\<close>.
  \<^verbatim>\<open>
  const twin = Fluid.saved.find(item => item.data === fluid.data);
  if (twin === undefined) { fluid.index = fluids.length; Fluid.saved.push(fluid); }
  else fluid.index = twin.index;
  \<close>
\<close>

definition save_step :: "nat \<Rightarrow> ref \<Rightarrow> registry \<Rightarrow> registry" where
  "save_step n p st =
     (case find (\<lambda>q. data (heap st q) = data (heap st p)) (saved st) of
        None \<Rightarrow> st\<lparr>heap := (heap st)(p := (heap st p)\<lparr>index := int n\<rparr>),
                    saved := saved st @ [p]\<rparr>
      | Some twin \<Rightarrow> st\<lparr>heap := (heap st)(p := (heap st p)\<lparr>index := index (heap st twin)\<rparr>)\<rparr>)"

fun save_loop :: "nat \<Rightarrow> ref list \<Rightarrow> registry \<Rightarrow> registry" where
  "save_loop n [] st = st"
| "save_loop n (p # ps) st = save_loop n ps (save_step n p st)"

text \<open>The buffer that \<open>Fluid.save\<close> writes: the records of the saved fluids, concatenated.\<close>

definition savedData :: "registry \<Rightarrow> jsstring" where
  "savedData st = concat (map (\<lambda>q. data (heap st q)) (saved st))"

text \<open>
  \<open>Fluid.save(fluids)\<close>. \<open>for (const fluid of fluids)\<close> throws a TypeError when \<open>fluids\<close>
  is not iterable, and a Fluid object is not.
\<close>

definition Fluid_save :: "fluidsArg \<Rightarrow> registry \<Rightarrow> error + registry" where
  "Fluid_save fluids st =
     (case fluids of
        Object p \<Rightarrow> Inl TypeError
      | Array ps \<Rightarrow>
          (let st' = save_loop (length ps) ps st
           in Inr (st'\<lparr>stored := Some (savedData st')\<rparr>)))"

text \<open>
  \<open>Fluid.show(fluids)\<close>: a fluid with no twin among the shown ones is pushed to
  \<open>Fluid.shown\<close>, and kept for saving when it is always shown; a fluid with a twin takes
  the twin's index. The fluids kept are then saved.
\<close>

definition show_step :: "ref \<Rightarrow> registry \<times> ref list \<Rightarrow> registry \<times> ref list" where
  "show_step p acc =
     (case acc of (st, toSave) \<Rightarrow>
        (case find (\<lambda>q. data (heap st q) = data (heap st p)) (shown st) of
           None \<Rightarrow> (st\<lparr>shown := shown st @ [p]\<rparr>,
                    if alwaysShown (heap st p) then toSave @ [p] else toSave)
         | Some twin \<Rightarrow>
             (st\<lparr>heap := (heap st)(p := (heap st p)\<lparr>index := index (heap st twin)\<rparr>)\<rparr>, toSave)))"

fun show_loop :: "ref list \<Rightarrow> registry \<times> ref list \<Rightarrow> registry \<times> ref list" where
  "show_loop [] acc = acc"
| "show_loop (p # ps) acc = show_loop ps (show_step p acc)"

definition Fluid_show :: "fluidsArg \<Rightarrow> registry \<Rightarrow> error + registry" where
  "Fluid_show fluids st =
     (case fluids of
        Object p \<Rightarrow> Inl TypeError
      | Array ps \<Rightarrow> (case show_loop ps (st, []) of (st', toSave) \<Rightarrow> Fluid_save (Array toSave) st'))"

text \<open>
  What loading the script does. The static fields are initialised from the stored item:
  \<open>Fluid.saved\<close> is the decoded collection and \<open>Fluid.shown\<close> the always-shown fluids of
  it; the decoded objects take the references from 0. Then the built-in fluid, a new
  object at the next reference, is shown: \<^verbatim>\<open>Fluid.show([new Fluid("Water", "#6CF", 100, true)])\<close>.
\<close>

definition loadRegistry :: "jsstring option \<Rightarrow> registry" where
  "loadRegistry item =
     (let fs = decodeCollection item
      in \<lparr>heap = (\<lambda>p. if p < length fs then fs ! p
                       else Fluid_new (js ''Water'') (js ''#6CF'') (Some 100) True),
          saved = [0..<length fs],
          shown = filter (\<lambda>p. alwaysShown (fs ! p)) [0..<length fs],
          stored = item\<rparr>)"

definition startUp :: "jsstring option \<Rightarrow> error + registry" where
  "startUp item = Fluid_show (Array [length (decodeCollection item)]) (loadRegistry item)"

section \<open>Entries (class Entry of classes.js)\<close>

text \<open>
  The fields of an Entry object. \<open>fluid\<close> is a reference, \<open>None\<close> for \<open>undefined\<close>
  (what the constructor stores when it is given no Fluid and \<open>Fluid.shown\<close> is empty).
  \<open>hour\<close> and \<open>minute\<close> are whole numbers by construction.
\<close>

record Entry =
  fluid :: "ref option"
  isOZ :: bool
  amount :: real
  hour :: int
  minute :: int

text \<open>
  The constructor. Its first argument is \<open>Some p\<close> for the Fluid object at \<open>p\<close> and
  \<open>None\<close> for anything that is not an instance of Fluid.
\<close>

definition Entry_new ::
  "registry \<Rightarrow> ref option \<Rightarrow> bool \<Rightarrow> real option \<Rightarrow> real option \<Rightarrow> real option \<Rightarrow> Entry" where
  "Entry_new st fluid0 isOZ0 amount0 hour0 minute0 =
     \<lparr>fluid = (case fluid0 of None \<Rightarrow> nthOpt (shown st) 0 | Some p \<Rightarrow> Some p),
      isOZ = isOZ0,
      amount = max 0 (min 6553.5 (of_int (Math_round (orZero amount0 * 10)) / 10)),
      hour = max 0 (min 23 (Math_round (orZero hour0))),
      minute = max 0 (min 59 (Math_round (orZero minute0)))\<rparr>"

text \<open>
  \<open>Entry.decode\<close>, the layout \<^verbatim>\<open>U0000HHHHHmmmmmm aaaaaaaaaaaaaaaa IIIIIIIIIIIIIIII\<close>.
  A missing first word counts as 0 (\<^verbatim>\<open>data.charCodeAt(0) || 0\<close>), a missing second word
  makes the amount \<open>NaN\<close>, and \<^verbatim>\<open>Fluid.saved[data.charCodeAt(2)] ?? Fluid.saved[0]\<close> falls
  back to the first saved fluid.
\<close>

definition Entry_decode :: "registry \<Rightarrow> jsstring \<Rightarrow> Entry" where
  "Entry_decode st d =
     (let complicated = toInt32 (charCodeAt d 0);
          oz = signed_drop_bit 15 complicated;
          hr = signed_drop_bit 6 complicated AND 31;
          mn = complicated AND 63;
          amt = map_option (\<lambda>c. real (unat c) / 10) (charCodeAt d 1);
          fl = (case (case charCodeAt d 2 of None \<Rightarrow> None | Some c \<Rightarrow> nthOpt (saved st) (unat c)) of
                  None \<Rightarrow> nthOpt (saved st) 0
                | Some p \<Rightarrow> Some p)
      in Entry_new st fl (oz \<noteq> 0) amt (Some (of_int (sint hr))) (Some (of_int (sint mn))))"

text \<open>
  \<open>String.fromCharCode\<close> on a number that need not be whole: the fraction is dropped
  (towards 0) and the low 16 bits are kept.
\<close>

definition toUint16 :: "real \<Rightarrow> 16 word" where
  "toUint16 x = word_of_int (if 0 \<le> x then \<lfloor>x\<rfloor> else \<lceil>x\<rceil>)"

definition entryHeader :: "bool \<Rightarrow> int \<Rightarrow> int \<Rightarrow> 32 word" where
  "entryHeader oz hr mn =
     push_bit 15 (of_bool oz) OR push_bit 6 (word_of_int hr AND 31) OR (word_of_int mn AND 63)"

text \<open>
  \<open>entry.encode()\<close>. It saves the fluid first when the fluid's index is \<open>-1\<close>, handing
  the Fluid object itself to \<open>Fluid.save\<close>, and reads the index afterwards. The first word
  is \<^verbatim>\<open>(this.isOZ << 15) | ((this.hour & 31) << 6) | (this.minute & 63)\<close> (\<open>entryHeader\<close>).
  Reading \<open>this.fluid.index\<close> of an \<open>undefined\<close> fluid throws.
\<close>

definition Entry_encode :: "Entry \<Rightarrow> registry \<Rightarrow> error + (jsstring \<times> registry)" where
  "Entry_encode e st =
     (case fluid e of
        None \<Rightarrow> Inl TypeError
      | Some p \<Rightarrow>
          (case (if index (heap st p) = -1 then Fluid_save (Object p) st else Inr st) of
             Inl err \<Rightarrow> Inl err
           | Inr st' \<Rightarrow>
               Inr ([fromCharCode (entryHeader (Entry.isOZ e) (hour e) (minute e)),
                     toUint16 (amount e * 10),
                     word_of_int (index (heap st' p))], st')))"

section \<open>Daily logs (class DailyLog of classes.js)\<close>

record DailyLog =
  goal :: real
  total :: real
  isOZ :: bool
  entries :: "Entry list"

definition DailyLog_new :: "bool \<Rightarrow> real option \<Rightarrow> DailyLog" where
  "DailyLog_new isOZ0 goal0 =
     \<lparr>goal = max 0 (min 6553.5 (of_int (Math_round (orZero goal0 * 10)) / 10)),
      total = 0, isOZ = isOZ0, entries = []\<rparr>"

text \<open>
  What an entry adds to the total of a log: its amount in the log's unit, times the
  hydration factor of its fluid. Reading \<open>entry.fluid.hydration\<close> of an \<open>undefined\<close>
  fluid throws.
\<close>

definition addEntry :: "registry \<Rightarrow> Entry \<Rightarrow> DailyLog \<Rightarrow> error + DailyLog" where
  "addEntry st entry dlog =
     (case fluid entry of
        None \<Rightarrow> Inl TypeError
      | Some p \<Rightarrow>
          Inr (dlog\<lparr>total := total dlog
                      + convertAmount (amount entry) (Entry.isOZ entry) (DailyLog.isOZ dlog)
                        * hydration (heap st p),
                    entries := entries dlog @ [entry]\<rparr>))"

text \<open>
  \<open>DailyLog.decode\<close>, the layout \<^verbatim>\<open>U000000000000000 GGGGGGGGGGGGGGGG [entries]\<close>:
  \<^verbatim>\<open>
  for (let i = 2; i < data.length; i += 3) {
      const entry = Entry.decode(data.substring(i, i + 3));
      log.total += Fluid.convertAmount(entry.amount, entry.isOZ, log.isOZ) * entry.fluid.hydration;
      log.entries.push(entry);
  }
  \<close>
\<close>

function DailyLog_decode_loop :: "registry \<Rightarrow> jsstring \<Rightarrow> nat \<Rightarrow> DailyLog \<Rightarrow> error + DailyLog" where
  "DailyLog_decode_loop st d i dlog =
     (if i < length d
      then (case addEntry st (Entry_decode st (substring i (i + 3) d)) dlog of
              Inl err \<Rightarrow> Inl err
            | Inr dlog' \<Rightarrow> DailyLog_decode_loop st d (i + 3) dlog')
      else Inr dlog)"
  by pat_completeness auto
termination
  by (relation "measure (\<lambda>(st, d, i, dlog). length d - i)") auto

declare DailyLog_decode_loop.simps [simp del]

definition DailyLog_decode :: "registry \<Rightarrow> jsstring \<Rightarrow> error + DailyLog" where
  "DailyLog_decode st d =
     (let oz = signed_drop_bit 15 (toInt32 (charCodeAt d 0));
          dlog = DailyLog_new (oz \<noteq> 0) (map_option (\<lambda>c. real (unat c) / 10) (charCodeAt d 1))
      in DailyLog_decode_loop st d 2 dlog)"

text \<open>
  \<open>log.encode()\<close>: the header \<^verbatim>\<open>String.fromCharCode(this.isOZ << 15, this.goal * 10)\<close>,
  then the record of each entry in order. Encoding an entry may save its fluid, so the
  registry is threaded through.
\<close>

fun encode_entries :: "Entry list \<Rightarrow> registry \<Rightarrow> error + (jsstring \<times> registry)" where
  "encode_entries [] st = Inr ([], st)"
| "encode_entries (e # es) st =
     (case Entry_encode e st of
        Inl err \<Rightarrow> Inl err
      | Inr (s, st') \<Rightarrow>
          (case encode_entries es st' of
             Inl err \<Rightarrow> Inl err
           | Inr (t, st'') \<Rightarrow> Inr (s @ t, st'')))"

definition DailyLog_encode :: "DailyLog \<Rightarrow> registry \<Rightarrow> error + (jsstring \<times> registry)" where
  "DailyLog_encode dlog st =
     (case encode_entries (entries dlog) st of
        Inl err \<Rightarrow> Inl err
      | Inr (body, st') \<Rightarrow>
          Inr (fromCharCode (push_bit 15 (of_bool (DailyLog.isOZ dlog)))
                 # toUint16 (goal dlog * 10) # body, st'))"

text \<open>
  \<open>log.register(fluid, isOZ, amount)\<close>. The hour and the minute come from the clock
  (\<open>new Date\<close>); they are arguments here. The method returns \<open>this\<close>, the log it changed;
  the model returns that log.
\<close>

definition register ::
  "registry \<Rightarrow> int \<Rightarrow> int \<Rightarrow> ref option \<Rightarrow> bool \<Rightarrow> real option \<Rightarrow> DailyLog \<Rightarrow> error + DailyLog" where
  "register st nowHours nowMinutes fluid0 isOZ0 amount0 dlog =
     addEntry st
       (Entry_new st fluid0 isOZ0 amount0 (Some (of_int nowHours)) (Some (of_int nowMinutes)))
       dlog"

section \<open>The calendar value object (class Month of classes.js)\<close>

text \<open>
  A month is a pair of two JavaScript numbers, \<open>year\<close> and \<open>month\<close> (1 for January).
  Both are whole numbers in every use of the class, so they are integers here.
\<close>

record Month =
  year :: int
  month :: int

text \<open>
  \<^verbatim>\<open>new Month(this.year + (this.month > 11), this.month > 11 ? 1 : this.month + 1)\<close>:
  the comparison is a boolean that the addition turns into 0 or 1.
\<close>

definition "next" :: "Month \<Rightarrow> Month" where
  "next m = \<lparr>year = year m + of_bool (month m > 11),
              month = (if month m > 11 then 1 else month m + 1)\<rparr>"






section \<open>Valid entries and saved fluids\<close>

text \<open>
  A valid entry, as the constructor leaves it: the hour from 0 to 23, the minute from 0
  to 59, the amount from 0 to 6553.5 and a whole number of tenths. A fluid is saved at a
  valid index when its index fits the 16-bit word of a record and \<open>Fluid.saved\<close> holds
  the fluid at that index.
\<close>

definition validEntry :: "Entry \<Rightarrow> bool" where
  "validEntry e =
     (0 \<le> hour e \<and> hour e \<le> 23 \<and> 0 \<le> minute e \<and> minute e \<le> 59
      \<and> 0 \<le> amount e \<and> amount e \<le> 6553.5 \<and> of_int \<lfloor>amount e * 10\<rfloor> = amount e * 10)"

definition savedAt :: "registry \<Rightarrow> ref \<Rightarrow> bool" where
  "savedAt st p =
     (0 \<le> index (heap st p) \<and> index (heap st p) < 65536
      \<and> nthOpt (saved st) (nat (index (heap st p))) = Some p)"

text \<open>
  The total of a log in the words of the specification: the sum, over the entries in
  their order, of each entry's amount converted into the unit of the log and multiplied
  by the hydration factor of the entry's fluid.
\<close>

definition entryShare :: "registry \<Rightarrow> bool \<Rightarrow> Entry \<Rightarrow> real" where
  "entryShare st oz e =
     (case fluid e of
        None \<Rightarrow> 0
      | Some p \<Rightarrow> convertAmount (amount e) (Entry.isOZ e) oz * hydration (heap st p))"

definition hydrationTotal :: "registry \<Rightarrow> bool \<Rightarrow> Entry list \<Rightarrow> real" where
  "hydrationTotal st oz es = foldl (\<lambda>t e. t + entryShare st oz e) 0 es"

text \<open>
  A valid log: the goal in the range and precision of an amount, every entry valid with
  its fluid saved at a valid index, and the total the running total of the entries.
\<close>

definition savedEntry :: "registry \<Rightarrow> Entry \<Rightarrow> bool" where
  "savedEntry st e = (validEntry e \<and> (case fluid e of None \<Rightarrow> False | Some p \<Rightarrow> savedAt st p))"

definition validLog :: "registry \<Rightarrow> DailyLog \<Rightarrow> bool" where
  "validLog st dlog =
     (0 \<le> goal dlog \<and> goal dlog \<le> 6553.5 \<and> of_int \<lfloor>goal dlog * 10\<rfloor> = goal dlog * 10
      \<and> list_all (savedEntry st) (entries dlog)
      \<and> total dlog = hydrationTotal st (DailyLog.isOZ dlog) (entries dlog))"

text \<open>The record that \<open>encode\<close> returns for an entry (empty when \<open>encode\<close> throws).\<close>

definition recordOf :: "registry \<Rightarrow> Entry \<Rightarrow> jsstring" where
  "recordOf st e = (case Entry_encode e st of Inl err \<Rightarrow> [] | Inr (r, st') \<Rightarrow> r)"

section \<open>Concrete values\<close>

text \<open>
  The built-in fluid, a registry with that fluid saved and shown at index 0 (every
  reference holds it), as after a reload with the fluid stored, and a
  log buffer of \<open>2 + 3 * 2 + 1\<close> words: the header (ounces, goal 64), two entries of 8 oz
  of the fluid at index 0 (at 8:30 and 8:45), and one more word.
\<close>

definition water :: Fluid where
  "water = Fluid_new (js ''Water'') (js ''#6CF'') (Some 100) True"

definition loadedRegistry :: registry where
  "loadedRegistry =
     \<lparr>heap = (\<lambda>p. water\<lparr>index := 0\<rparr>), saved = [0], shown = [0], stored = Some (data water)\<rparr>"

text \<open>
  A registry with nothing saved, as it is when the stored item is absent, before the
  built-in fluid is shown. Every reference holds an unsaved copy of the built-in fluid.
\<close>

definition freshRegistry :: registry where
  "freshRegistry = \<lparr>heap = (\<lambda>p. water), saved = [], shown = [], stored = None\<rparr>"

definition sampleEntry :: Entry where
  "sampleEntry = \<lparr>fluid = Some 0, isOZ = True, amount = 8, hour = 8, minute = 30\<rparr>"

definition danglingLog :: jsstring where
  "danglingLog = [32768, 640, 33310, 80, 0, 33325, 80, 0, 33344]"

text \<open>
  A log of three entries of 8 oz of the stored fluid, with a goal of 64 oz and a total
  of 24 oz.
\<close>

definition sampleLog :: DailyLog where
  "sampleLog = \<lparr>goal = 64, total = 24, isOZ = True,
                 entries = [sampleEntry, sampleEntry\<lparr>minute := 45\<rparr>, sampleEntry\<lparr>hour := 9\<rparr>]\<rparr>"

section \<open>Properties\<close>

subsection \<open>Words and hex digits\<close>

lemma mask_127: "(127 :: 32 word) = mask 7"
  by (simp add: mask_eq_exp_minus_1)

lemma mask_31: "(31 :: 32 word) = mask 5"
  by (simp add: mask_eq_exp_minus_1)

lemma bits_hydration:
  fixes h n :: "32 word"
  shows "signed_drop_bit 8 (push_bit 15 (of_bool a) OR push_bit 8 (take_bit 7 h) OR take_bit 5 n)
           AND 127 = take_bit 7 h"
  unfolding mask_127 by (rule bit_word_eqI) (auto simp: bit_simps)

lemma bits_length:
  fixes h n :: "32 word"
  shows "(push_bit 15 (of_bool a) OR push_bit 8 (take_bit 7 h) OR take_bit 5 n) AND 31
           = take_bit 5 n"
  unfolding mask_31 by (rule bit_word_eqI) (auto simp: bit_simps)

lemma bits_shown:
  fixes h n :: "32 word"
  shows "signed_drop_bit 15 (push_bit 15 (of_bool a) OR push_bit 8 (take_bit 7 h) OR take_bit 5 n)
           = of_bool a"
  by (rule bit_word_eqI) (auto simp: bit_simps)

lemma bits_fit:
  fixes h n :: "32 word"
  shows "ucast (ucast (push_bit 15 (of_bool a) OR push_bit 8 (take_bit 7 h) OR take_bit 5 n)
           :: 16 word)
         = (push_bit 15 (of_bool a) OR push_bit 8 (take_bit 7 h) OR take_bit 5 n :: 32 word)"
  by (rule bit_word_eqI) (auto simp: bit_simps)

lemma hyd_take_bit:
  assumes "0 \<le> h" "h \<le> 100"
  shows "(word_of_int h :: 32 word) = take_bit 7 (word_of_int h)"
proof -
  have "take_bit 7 h = h" using assms by (simp add: take_bit_int_eq_self)
  then have "(word_of_int h :: 32 word) = word_of_int (take_bit 7 h)" by simp
  also have "\<dots> = take_bit 7 (word_of_int h)" by (simp add: of_int_take_bit)
  finally show ?thesis .
qed

lemma len_take_bit:
  assumes "n \<le> 31"
  shows "(word_of_nat n :: 32 word) = take_bit 5 (word_of_nat n)"
proof -
  have "take_bit 5 n = n" using assms by (simp add: take_bit_nat_eq_self)
  then have "(word_of_nat n :: 32 word) = word_of_nat (take_bit 5 n)" by simp
  also have "\<dots> = take_bit 5 (word_of_nat n)" by (simp add: of_nat_take_bit)
  finally show ?thesis .
qed

lemma sint_hyd:
  assumes "0 \<le> h" "h \<le> 100"
  shows "sint (word_of_int h :: 32 word) = h"
  using assms by (simp add: sint_sbintrunc' signed_take_bit_int_eq_self)

lemma unat_len:
  assumes "n \<le> 31"
  shows "unat (word_of_nat n :: 32 word) = n"
  using assms by (simp add: unat_of_nat take_bit_nat_eq_self)

lemma hexDigit_hexValue:
  assumes "isLowerHex c"
  shows "\<exists>v. hexValue c = Some v \<and> v < 16 \<and> hexDigit v = c"
proof -
  consider "48 \<le> unat c" "unat c \<le> 57" | "97 \<le> unat c" "unat c \<le> 102"
    using assms by (auto simp: isLowerHex_def word_le_nat_alt)
  then show ?thesis
  proof cases
    case 1
    then have v: "hexValue c = Some (unat c - 48)" by (simp add: hexValue_def word_le_nat_alt)
    have lt: "unat c - 48 < 10" and restore: "48 + (unat c - 48) = unat c" using 1 by arith+
    have "hexDigit (unat c - 48) = c" unfolding hexDigit_def using lt restore by simp
    with v lt show ?thesis by auto
  next
    case 2
    then have v: "hexValue c = Some (unat c - 87)" by (simp add: hexValue_def word_le_nat_alt)
    have ge: "\<not> unat c - 87 < 10" and lt: "unat c - 87 < 16"
      and restore: "87 + (unat c - 87) = unat c" using 2 by arith+
    have "hexDigit (unat c - 87) = c" unfolding hexDigit_def using ge restore by simp
    with v lt show ?thesis by auto
  qed
qed

lemma toString16_digit: "a < 16 \<Longrightarrow> toString16 a = [hexDigit a]"
  by (simp add: toString16.simps)

lemma toString16_step: "16 \<le> n \<Longrightarrow> toString16 n = toString16 (n div 16) @ [hexDigit (n mod 16)]"
  by (subst toString16.simps) simp

lemma hexDigit_0: "hexDigit 0 = 48" by (simp add: hexDigit_def)

lemma toString16_3:
  assumes "a < 16" "b < 16" "c < 16"
  shows "padStart 3 48 (toString16 (256 * a + 16 * b + c)) = [hexDigit a, hexDigit b, hexDigit c]"
proof (cases "a = 0")
  case a0: True
  show ?thesis
  proof (cases "b = 0")
    case True
    with a0 assms show ?thesis by (simp add: toString16_digit padStart_def hexDigit_0 numeral_2_eq_2)
  next
    case False
    then have "16 \<le> 16 * b + c" by simp
    moreover have "(16 * b + c) div 16 = b" "(16 * b + c) mod 16 = c" using assms by simp_all
    ultimately have "toString16 (16 * b + c) = [hexDigit b, hexDigit c]"
      using assms by (simp add: toString16_step toString16_digit)
    with a0 show ?thesis by (simp add: padStart_def hexDigit_0 numeral_2_eq_2)
  qed
next
  case False
  then have big: "16 \<le> 256 * a + 16 * b + c" "16 \<le> 16 * a + b" by simp_all
  have gen: "(c + k * 16) div 16 = k \<and> (c + k * 16) mod 16 = c" for k
    using assms by simp
  have split: "256 * a + 16 * b + c = c + (16 * a + b) * 16" by simp
  have d1: "(256 * a + 16 * b + c) div 16 = 16 * a + b" "(256 * a + 16 * b + c) mod 16 = c"
    unfolding split using gen [of "16 * a + b"] by blast+
  have d2: "(16 * a + b) div 16 = a" "(16 * a + b) mod 16 = b" using assms by simp_all
  have "toString16 (256 * a + 16 * b + c) = [hexDigit a, hexDigit b, hexDigit c]"
    using big assms by (simp add: toString16_step d1 d2 toString16_digit)
  then show ?thesis by (simp add: padStart_def)
qed

lemma Math_round_of_int: "Math_round (of_int k) = k"
  by (simp add: Math_round_def)

lemma fluidHeader_fields:
  assumes "0 \<le> h" "h \<le> 100" "n \<le> 31"
  shows "toInt32 (Some (fromCharCode (fluidHeader a h n))) = fluidHeader a h n"
    and "signed_drop_bit 15 (fluidHeader a h n) = of_bool a"
    and "sint (signed_drop_bit 8 (fluidHeader a h n) AND 127) = h"
    and "unat (fluidHeader a h n AND 31) = n"
proof -
  have w: "fluidHeader a h n = push_bit 15 (of_bool a) OR push_bit 8 (take_bit 7 (word_of_int h))
             OR take_bit 5 (word_of_nat n)"
    unfolding fluidHeader_def using hyd_take_bit [OF assms(1,2)] len_take_bit [OF assms(3)] by simp
  show "toInt32 (Some (fromCharCode (fluidHeader a h n))) = fluidHeader a h n"
    unfolding w toInt32_def fromCharCode_def by (simp add: bits_fit)
  show "signed_drop_bit 15 (fluidHeader a h n) = of_bool a"
    unfolding w by (rule bits_shown)
  have "signed_drop_bit 8 (fluidHeader a h n) AND 127 = word_of_int h"
    unfolding w bits_hydration using hyd_take_bit [OF assms(1,2)] by simp
  then show "sint (signed_drop_bit 8 (fluidHeader a h n) AND 127) = h"
    using sint_hyd [OF assms(1,2)] by simp
  have "fluidHeader a h n AND 31 = word_of_nat n"
    unfolding w bits_length using len_take_bit [OF assms(3)] by simp
  then show "unat (fluidHeader a h n AND 31) = n"
    using unat_len [OF assms(3)] by simp
qed

subsection \<open>The colour of a fluid\<close>

lemma isHexColor_cases:
  assumes "isHexColor s"
  obtains a b c where "s = [35, a, b, c]" "isLowerHex a" "isLowerHex b" "isLowerHex c"
  using assms by (auto simp: isHexColor_def split: list.splits)

lemma lowerUnit_hex: "isLowerHex c \<Longrightarrow> lowerUnit c = c"
  by (auto simp: isLowerHex_def lowerUnit_def word_le_nat_alt)

lemma toLowerCase_color: "isHexColor s \<Longrightarrow> toLowerCase s = s"
  by (erule isHexColor_cases) (simp add: toLowerCase_def lowerUnit_hex, simp add: lowerUnit_def)

lemma isHexColor_default: "isHexColor (js ''#999'')"
  by (simp add: isHexColor_def js_def isLowerHex_def)

lemma unat_color_word:
  assumes "n < 4096"
  shows "unat (toInt32 (Some (word_of_nat n)) AND 0x0FFF) = n"
proof -
  have m: "(0x0FFF :: 32 word) = mask 12" by (simp add: mask_eq_exp_minus_1)
  have "unat (take_bit 12 (ucast (word_of_nat n :: 16 word) :: 32 word))
          = take_bit 12 (take_bit 32 (take_bit 16 n))"
    by (simp only: unsigned_take_bit_eq unsigned_ucast_eq unat_of_nat) (simp add: take_bit_eq_mod)
  also have "\<dots> = n" using assms by (simp add: take_bit_eq_mod)
  finally show ?thesis unfolding m toInt32_def
    by (simp flip: take_bit_eq_mask)
qed

lemma color_roundtrip:
  assumes "isHexColor s"
  shows "js ''#'' @ padStart 3 48 (toString16 (unat
           (toInt32 (Some (case parseInt16 (substring 1 4 s) of None \<Rightarrow> 0 | Some v \<Rightarrow> word_of_nat v))
             AND 0x0FFF))) = s"
proof -
  from assms obtain a b c where s: "s = [35, a, b, c]"
    and h: "isLowerHex a" "isLowerHex b" "isLowerHex c" by (rule isHexColor_cases)
  from h obtain va vb vc where v: "hexValue a = Some va" "va < 16" "hexDigit va = a"
    "hexValue b = Some vb" "vb < 16" "hexDigit vb = b"
    "hexValue c = Some vc" "vc < 16" "hexDigit vc = c"
    using hexDigit_hexValue by metis
  have p: "parseInt16 (substring 1 4 s) = Some (256 * va + 16 * vb + vc)"
    using v by (simp add: s parseInt16_def substring_def)
  have lt: "256 * va + 16 * vb + vc < 4096" using v by simp
  show ?thesis using v p lt
    by (simp add: s toString16_3 js_def unat_color_word del: of_nat_add of_nat_mult)
qed

subsection \<open>The fluid codec\<close>

lemma Fluid_new_color: "isHexColor (color (Fluid_new n c h a))"
  by (simp add: Fluid_new_def Let_def isHexColor_default)

lemma Fluid_new_fixed:
  assumes "length nm \<le> 31" "isHexColor col" "0 \<le> hyd" "hyd \<le> 100"
  shows "Fluid_new nm col (Some (of_int hyd)) a =
    \<lparr>name = nm, color = col, hydration = of_int hyd / 100, alwaysShown = a,
     data = fromCharCode (fluidHeader a hyd (length nm))
       # (case parseInt16 (substring 1 4 col) of None \<Rightarrow> 0 | Some v \<Rightarrow> word_of_nat v) # nm,
     index = -1\<rparr>"
  using assms
  by (simp add: Fluid_new_def Let_def toLowerCase_color orZero_def Math_round_of_int)

lemma Fluid_new_unfold:
  "\<exists>nm col hyd. length nm \<le> 31 \<and> isHexColor col \<and> 0 \<le> hyd \<and> hyd \<le> 100 \<and>
     Fluid_new n c h a = Fluid_new nm col (Some (of_int hyd)) a"
proof -
  define nm where "nm = take 31 n"
  define col where "col = (if isHexColor (toLowerCase c) then toLowerCase c else js ''#999'')"
  define hyd where "hyd = max 0 (min 100 (Math_round (orZero h)))"
  have 1: "length nm \<le> 31" by (simp add: nm_def)
  have 2: "isHexColor col" by (simp add: col_def isHexColor_default)
  have 3: "0 \<le> hyd" "hyd \<le> 100" by (simp_all add: hyd_def)
  have "Fluid_new n c h a = Fluid_new nm col (Some (of_int hyd)) a"
    unfolding Fluid_new_fixed [OF 1 2 3]
    by (simp add: Fluid_new_def Let_def nm_def col_def hyd_def)
  with 1 2 3 show ?thesis by blast
qed

lemma Fluid_decode_fixed:
  assumes "length nm \<le> 31" "isHexColor col" "0 \<le> hyd" "hyd \<le> 100"
  shows "Fluid_decode (data (Fluid_new nm col (Some (of_int hyd)) a) @ rest)
     = Fluid_new nm col (Some (of_int hyd)) a"
proof -
  let ?w1 = "fromCharCode (fluidHeader a hyd (length nm))"
  let ?w2 = "case parseInt16 (substring 1 4 col) of None \<Rightarrow> 0 | Some v \<Rightarrow> word_of_nat v"
  let ?d = "?w1 # ?w2 # nm @ rest"
  note f = fluidHeader_fields [OF assms(3,4,1), of a]
  have c0: "toInt32 (charCodeAt ?d 0) = fluidHeader a hyd (length nm)"
    by (simp add: charCodeAt_def f)
  have c1: "charCodeAt ?d 1 = Some ?w2" by (simp add: charCodeAt_def)
  have nm: "substring 2 (2 + length nm) ?d = nm" by (simp add: substring_def)
  have col: "js ''#'' @ padStart 3 48 (toString16 (unat (toInt32 (charCodeAt ?d 1) AND 0x0FFF))) = col"
    unfolding c1 by (rule color_roundtrip [OF assms(2)])
  have "Fluid_decode ?d = Fluid_new nm col (Some (of_int hyd)) (of_bool a \<noteq> (0::32 word))"
    unfolding Fluid_decode_def Let_def c0 col f nm using assms(3,4) by simp
  then show ?thesis
    unfolding Fluid_new_fixed [OF assms] by simp
qed

text \<open>
  C4. For a valid fluid, made from a name of up to 31 characters, a 3-digit lower-case
  hex colour, a percentage from 0 to 100 and a visibility flag, the constructor keeps
  these as the fields of the fluid, and decoding the fluid's record (whether the fluid
  was saved since or not) gives a fluid with the same name, colour, hydration factor and
  flag: the name, the colour and the flag as given, the hydration factor the percentage
  over 100. For any arguments at all, decoding the record of the constructed fluid gives
  the constructed fluid.
\<close>

theorem Fluid_decode_roundtrip:
  assumes "length n \<le> 31" "isHexColor c" "0 \<le> p" "p \<le> 100"
  shows "name (Fluid_new n c (Some (of_int p)) a) = n
       \<and> color (Fluid_new n c (Some (of_int p)) a) = c
       \<and> hydration (Fluid_new n c (Some (of_int p)) a) = of_int p / 100
       \<and> alwaysShown (Fluid_new n c (Some (of_int p)) a) = a
       \<and> name (Fluid_decode (data ((Fluid_new n c (Some (of_int p)) a)\<lparr>index := i\<rparr>))) = n
       \<and> color (Fluid_decode (data ((Fluid_new n c (Some (of_int p)) a)\<lparr>index := i\<rparr>))) = c
       \<and> hydration (Fluid_decode (data ((Fluid_new n c (Some (of_int p)) a)\<lparr>index := i\<rparr>)))
           = of_int p / 100
       \<and> alwaysShown (Fluid_decode (data ((Fluid_new n c (Some (of_int p)) a)\<lparr>index := i\<rparr>))) = a
       \<and> (\<forall>n0 c0 h0. Fluid_decode (data ((Fluid_new n0 c0 h0 a)\<lparr>index := i\<rparr>))
             = Fluid_new n0 c0 h0 a)"
proof -
  let ?f = "Fluid_new n c (Some (of_int p)) a"
  have dec: "Fluid_decode (data (?f\<lparr>index := i\<rparr>)) = ?f"
    using Fluid_decode_fixed [OF assms, of a "[]"] by simp
  have fields: "name ?f = n" "color ?f = c" "hydration ?f = of_int p / 100" "alwaysShown ?f = a"
    unfolding Fluid_new_fixed [OF assms] by simp_all
  have gen: "Fluid_decode (data ((Fluid_new n0 c0 h0 a)\<lparr>index := i\<rparr>)) = Fluid_new n0 c0 h0 a"
    for n0 c0 h0
    using Fluid_new_unfold [of n0 c0 h0 a] Fluid_decode_fixed [where rest = "[]"] by auto
  show ?thesis unfolding dec using fields gen by simp
qed

theorem Fluid_decode_roundtrip_witness:
  "length (js ''Water'') \<le> 31 \<and> isHexColor (js ''#6cf'')
   \<and> name (Fluid_decode (data (Fluid_new (js ''Water'') (js ''#6cf'') (Some 100) True))) = js ''Water''
   \<and> color (Fluid_decode (data (Fluid_new (js ''Water'') (js ''#6cf'') (Some 100) True))) = js ''#6cf''
   \<and> hydration (Fluid_decode (data (Fluid_new (js ''Water'') (js ''#6cf'') (Some 100) True))) = 1
   \<and> alwaysShown (Fluid_decode (data (Fluid_new (js ''Water'') (js ''#6cf'') (Some 100) True)))"
proof -
  have l: "length (js ''Water'') \<le> 31" by (simp add: js_def)
  have c: "isHexColor (js ''#6cf'')" by (simp add: js_def isHexColor_def isLowerHex_def)
  have p: "(0::int) \<le> 100" "(100::int) \<le> 100" by simp_all
  have same: "(Fluid_new (js ''Water'') (js ''#6cf'') (Some 100) True)\<lparr>index := -1\<rparr>
      = Fluid_new (js ''Water'') (js ''#6cf'') (Some 100) True"
    by (simp add: Fluid_new_def Let_def)
  show ?thesis
    using Fluid_decode_roundtrip [OF l c p, of True "-1"] l c unfolding same by simp
qed

subsection \<open>Saving fluids\<close>

lemma find_snoc:
  "find P (xs @ [y]) = (case find P xs of None \<Rightarrow> (if P y then Some y else None) | Some x \<Rightarrow> Some x)"
  by (induction xs) simp_all

lemma save_step_data: "data (heap (save_step n p st) x) = data (heap st x)"
  by (simp add: save_step_def split: option.splits)

lemma save_step_twin:
  "\<exists>t. find (\<lambda>x. data (heap (save_step n p st) x) = data (heap st p)) (saved (save_step n p st))
          = Some t
        \<and> index (heap (save_step n p st) t) = index (heap (save_step n p st) p)"
proof -
  let ?same = "\<lambda>x. data (heap st x) = data (heap st p)"
  have same: "(\<lambda>x. data (heap (save_step n p st) x) = data (heap st p)) = ?same"
    by (simp add: save_step_data)
  show ?thesis
  proof (cases "find ?same (saved st)")
    case None
    then have "save_step n p st = st\<lparr>heap := (heap st)(p := (heap st p)\<lparr>index := int n\<rparr>),
        saved := saved st @ [p]\<rparr>"
      by (simp add: save_step_def)
    moreover have "find ?same (saved st @ [p]) = Some p"
      using None by (simp add: find_snoc)
    ultimately show ?thesis unfolding same by simp
  next
    case (Some t)
    then have "save_step n p st = st\<lparr>heap := (heap st)(p := (heap st p)\<lparr>index := index (heap st t)\<rparr>)\<rparr>"
      by (simp add: save_step_def)
    then show ?thesis unfolding same using Some by simp
  qed
qed

lemma save_step_found:
  assumes "find (\<lambda>x. data (heap st x) = data (heap st q)) (saved st) = Some t"
  shows "saved (save_step n q st) = saved st"
    and "index (heap (save_step n q st) q) = index (heap st t)"
    and "index (heap (save_step n q st) x) = (if x = q then index (heap st t) else index (heap st x))"
  using assms by (simp_all add: save_step_def)

text \<open>
  C7. Saving a fluid, and then saving it again or saving a fluid with the same record,
  is no error either time; the second save leaves \<open>Fluid.saved\<close> as the first left it and
  assigns the index that the first assigned, and the first fluid keeps that index.
\<close>

theorem Fluid_save_idempotent:
  assumes "data (heap st q) = data (heap st p)"
  shows "\<exists>st1 st2. Fluid_save (Array [p]) st = Inr st1 \<and> Fluid_save (Array [q]) st1 = Inr st2
           \<and> saved st2 = saved st1
           \<and> index (heap st2 q) = index (heap st1 p)
           \<and> index (heap st2 p) = index (heap st1 p)"
proof -
  define s1 where "s1 = save_step 1 p st"
  define st1 where "st1 = s1\<lparr>stored := Some (savedData s1)\<rparr>"
  define s2 where "s2 = save_step 1 q st1"
  define st2 where "st2 = s2\<lparr>stored := Some (savedData s2)\<rparr>"
  have r1: "Fluid_save (Array [p]) st = Inr st1"
    by (simp add: Fluid_save_def Let_def st1_def s1_def)
  have r2: "Fluid_save (Array [q]) st1 = Inr st2"
    by (simp add: Fluid_save_def Let_def st2_def s2_def)
  have d: "data (heap st1 q) = data (heap st p)"
    using assms by (simp add: st1_def s1_def save_step_data)
  obtain t where "find (\<lambda>x. data (heap s1 x) = data (heap st p)) (saved s1) = Some t"
    and t: "index (heap s1 t) = index (heap s1 p)"
    using save_step_twin [of 1 p st] unfolding s1_def by blast
  then have f: "find (\<lambda>x. data (heap st1 x) = data (heap st1 q)) (saved st1) = Some t"
    unfolding d by (simp add: st1_def)
  note k = save_step_found [OF f, of 1]
  have "saved st2 = saved st1" using k(1) by (simp add: st2_def s2_def)
  moreover have "index (heap st2 q) = index (heap st1 p)"
    using k(2) t by (simp add: st2_def s2_def st1_def)
  moreover have "index (heap st2 p) = index (heap st1 p)"
    using k(3) [of p] t by (simp add: st2_def s2_def st1_def)
  ultimately show ?thesis using r1 r2 by blast
qed

theorem Fluid_save_idempotent_witness:
  "data (heap freshRegistry 1) = data (heap freshRegistry 0)
   \<and> (\<exists>st1 st2. Fluid_save (Array [0]) freshRegistry = Inr st1 \<and> Fluid_save (Array [1]) st1 = Inr st2
           \<and> saved st1 = [0] \<and> saved st2 = [0]
           \<and> index (heap st2 1) = index (heap st1 0)
           \<and> index (heap st2 0) = index (heap st1 0))"
proof -
  have d: "data (heap freshRegistry 1) = data (heap freshRegistry 0)"
    by (simp add: freshRegistry_def)
  have "\<exists>st1. Fluid_save (Array [0]) freshRegistry = Inr st1 \<and> saved st1 = [0]"
    by (simp add: Fluid_save_def Let_def save_step_def freshRegistry_def)
  with Fluid_save_idempotent [OF d] d show ?thesis by auto
qed

text \<open>
  \<open>Fluid.decodeCollection\<close> indexes the fluids of a buffer by their positions.
\<close>

lemma decodeCollection_loop_index:
  "map index (decodeCollection_loop d pos i) = map (\<lambda>k. i + int k) [0..<length (decodeCollection_loop d pos i)]"
proof (induction d pos i rule: decodeCollection_loop.induct)
  case (1 d pos i)
  show ?case
  proof (cases "pos < length d")
    case False
    then show ?thesis by (simp add: decodeCollection_loop.simps [of d pos i])
  next
    case True
    let ?rest = "decodeCollection_loop d (pos + length (data (Fluid_decode (substringFrom pos d)))) (i + 1)"
    have u: "decodeCollection_loop d pos i = (Fluid_decode (substringFrom pos d))\<lparr>index := i\<rparr> # ?rest"
      using True by (simp add: decodeCollection_loop.simps [of d pos i])
    have "map index ?rest = map (\<lambda>k. i + 1 + int k) [0..<length ?rest]"
      using "1.IH" [OF True] .
    also have "\<dots> = map (\<lambda>k. i + int k) (map Suc [0..<length ?rest])"
      by simp
    finally have r: "map index ?rest = map (\<lambda>k. i + int k) [Suc 0..<Suc (length ?rest)]"
      by (simp only: map_Suc_upt)
    have "[0..<Suc (length ?rest)] = 0 # [Suc 0..<Suc (length ?rest)]"
      by (rule upt_conv_Cons) simp
    then show ?thesis unfolding u using r by simp
  qed
qed

lemma decodeCollection_index:
  "map index (decodeCollection item) = map int [0..<length (decodeCollection item)]"
  by (cases item) (simp_all add: decodeCollection_def decodeCollection_loop_index)

text \<open>
  C3 fails on the code. \<open>Fluid.save\<close> gives a fluid that it appends the index
  \<open>fluids.length\<close>, the length of its argument, not the length of \<open>Fluid.saved\<close>. With
  nothing saved, saving the built-in fluid alone puts it at position 0 with index 1;
  decoding the buffer that was written gives it index 0, its position.
\<close>

theorem Fluid_save_index_not_position:
  "\<exists>st. Fluid_save (Array [0]) freshRegistry = Inr st \<and> saved st = [0]
      \<and> index (heap st 0) = 1
      \<and> map index (decodeCollection (stored st)) = [0]"
proof -
  define st where "st = \<lparr>heap = (heap freshRegistry)(0 := water\<lparr>index := 1\<rparr>), saved = [0],
    shown = [], stored = Some (data water)\<rparr>"
  have "Fluid_save (Array [0]) freshRegistry = Inr st"
    by (simp add: Fluid_save_def Let_def save_step_def freshRegistry_def st_def savedData_def)
  moreover have "map index (decodeCollection (Some (data water))) = [0]"
    by code_simp
  ultimately show ?thesis by (simp add: st_def)
qed

subsection \<open>Start-up\<close>

text \<open>
  After start-up some fluid is shown, whatever was stored. On a store with no item the
  built-in fluid is saved at position 0 with index 1; on a store that holds the built-in
  fluid, the registry has that fluid saved and shown at position 0 with index 0.
\<close>

lemma save_step_shown: "shown (save_step n p st) = shown st"
  by (simp add: save_step_def split: option.splits)

lemma save_loop_shown: "shown (save_loop n ps st) = shown st"
  by (induction ps arbitrary: st) (simp_all add: save_step_shown)

lemma Fluid_save_shown: "Fluid_save (Array ps) st = Inr st' \<Longrightarrow> shown st' = shown st"
  by (auto simp: Fluid_save_def Let_def save_loop_shown)

lemma show_step_shown: "shown (fst (show_step p (st, ts))) \<noteq> []"
proof (cases "find (\<lambda>q. data (heap st q) = data (heap st p)) (shown st)")
  case None
  then show ?thesis by (simp add: show_step_def)
next
  case (Some twin)
  then have "shown st \<noteq> []" by auto
  with Some show ?thesis by (simp add: show_step_def)
qed

lemma startUp_shown: "\<exists>st. startUp item = Inr st \<and> shown st \<noteq> []"
proof -
  obtain st' ts where s: "show_step (length (decodeCollection item)) (loadRegistry item, []) = (st', ts)"
    by (cases "show_step (length (decodeCollection item)) (loadRegistry item, [])")
  have "shown st' \<noteq> []"
    using show_step_shown [of "length (decodeCollection item)" "loadRegistry item" "[]"] s by simp
  moreover obtain st where "Fluid_save (Array ts) st' = Inr st"
    by (simp add: Fluid_save_def Let_def)
  ultimately show ?thesis
    using s Fluid_save_shown [of ts st' st] by (simp add: startUp_def Fluid_show_def)
qed

lemma startUp_fresh:
  "\<exists>st. startUp None = Inr st \<and> saved st = [0] \<and> shown st = [0] \<and> index (heap st 0) = 1
     \<and> stored st = Some (data water) \<and> map index (decodeCollection (stored st)) = [0]"
proof -
  have a: "alwaysShown (Fluid_new n c h True)" for n c h
    by (simp add: Fluid_new_def Let_def)
  have "startUp None = Inr \<lparr>heap = (\<lambda>p. water)(0 := water\<lparr>index := 1\<rparr>), saved = [0], shown = [0],
      stored = Some (data water)\<rparr>"
    by (simp add: startUp_def Fluid_show_def loadRegistry_def decodeCollection_def show_step_def
        Fluid_save_def save_step_def Let_def savedData_def water_def a)
  moreover have "map index (decodeCollection (Some (data water))) = [0]"
    by code_simp
  ultimately show ?thesis by simp
qed

lemma loadRegistry_None: "loadRegistry None = freshRegistry"
  by (simp add: loadRegistry_def decodeCollection_def freshRegistry_def water_def)

lemma startUp_stored:
  "\<exists>st. startUp (Some (data water)) = Inr st \<and> saved st = [0] \<and> shown st = [0]
     \<and> heap st 0 = water\<lparr>index := 0\<rparr> \<and> stored st = Some (data water)"
proof -
  have d: "decodeCollection (Some (data water)) = [water\<lparr>index := 0\<rparr>]"
    by code_simp
  have a: "alwaysShown water" by (simp add: water_def Fluid_new_def Let_def)
  have "startUp (Some (data water)) = Inr \<lparr>heap = (\<lambda>p. if p = 0 then water\<lparr>index := 0\<rparr> else
      if p = 1 then water\<lparr>index := 0\<rparr> else water), saved = [0], shown = [0],
      stored = Some (data water)\<rparr>"
    unfolding startUp_def Fluid_show_def loadRegistry_def d
    by (simp add: show_step_def a Fluid_save_def savedData_def flip: water_def)
      (rule ext, simp add: water_def)
  then show ?thesis by simp
qed

subsection \<open>The entry codec\<close>

lemma mask_63: "(63 :: 32 word) = mask 6"
  by (simp add: mask_eq_exp_minus_1)

lemma entry_bits_oz:
  fixes h m :: "32 word"
  shows "signed_drop_bit 15 (push_bit 15 (of_bool a) OR push_bit 6 (h AND 31) OR (m AND 63)) = of_bool a"
  unfolding mask_31 mask_63 by (rule bit_word_eqI) (auto simp: bit_simps)

lemma entry_bits_hour:
  fixes h m :: "32 word"
  shows "signed_drop_bit 6 (push_bit 15 (of_bool a) OR push_bit 6 (h AND 31) OR (m AND 63)) AND 31
     = h AND 31"
  unfolding mask_31 mask_63 by (rule bit_word_eqI) (auto simp: bit_simps)

lemma entry_bits_minute:
  fixes h m :: "32 word"
  shows "(push_bit 15 (of_bool a) OR push_bit 6 (h AND 31) OR (m AND 63)) AND 63 = m AND 63"
  unfolding mask_31 mask_63 by (rule bit_word_eqI) (auto simp: bit_simps)

lemma entry_bits_fit:
  fixes h m :: "32 word"
  shows "ucast (ucast (push_bit 15 (of_bool a) OR push_bit 6 (h AND 31) OR (m AND 63)) :: 16 word)
     = (push_bit 15 (of_bool a) OR push_bit 6 (h AND 31) OR (m AND 63) :: 32 word)"
  unfolding mask_31 mask_63 by (rule bit_word_eqI) (auto simp: bit_simps)

lemma sint_and_mask:
  assumes "0 \<le> k" "k < 2 ^ n" "n < 31"
  shows "sint ((word_of_int k :: 32 word) AND mask n) = k"
proof -
  have "take_bit n k = k" using assms by (simp add: take_bit_int_eq_self)
  then have "(word_of_int k :: 32 word) AND mask n = word_of_int k"
    by (metis of_int_take_bit take_bit_eq_mask)
  moreover have "sint (word_of_int k :: 32 word) = k"
  proof -
    have "k < 2 ^ 31" using assms power_strict_increasing [of n 31 "2::int"] by simp
    then show ?thesis using assms by (simp add: sint_sbintrunc' signed_take_bit_int_eq_self)
  qed
  ultimately show ?thesis by simp
qed

lemma Entry_new_valid: "validEntry (Entry_new st f oz a h m)"
proof -
  define k where "k = Math_round (orZero a * 10)"
  have "\<exists>j::int. max 0 (min 6553.5 (of_int k / 10)) = (of_int j / 10 :: real)"
  proof -
    have "max 0 (min 6553.5 (of_int k / 10)) = (of_int (max 0 (min 65535 k)) / 10 :: real)"
      by (simp add: max_def min_def)
    then show ?thesis by blast
  qed
  then obtain j :: int where j: "max 0 (min 6553.5 (of_int k / 10)) = (of_int j / 10 :: real)" by blast
  have "of_int \<lfloor>(of_int j / 10 :: real) * 10\<rfloor> = (of_int j / 10 :: real) * 10" by simp
  then show ?thesis
    unfolding validEntry_def Entry_new_def using j by (simp add: k_def)
qed

lemma entryHeader_fields:
  assumes "0 \<le> h" "h \<le> 23" "0 \<le> m" "m \<le> 59"
  shows "toInt32 (Some (fromCharCode (entryHeader a h m))) = entryHeader a h m"
    and "signed_drop_bit 15 (entryHeader a h m) = of_bool a"
    and "sint (signed_drop_bit 6 (entryHeader a h m) AND 31) = h"
    and "sint (entryHeader a h m AND 63) = m"
proof -
  show "toInt32 (Some (fromCharCode (entryHeader a h m))) = entryHeader a h m"
    unfolding toInt32_def fromCharCode_def entryHeader_def option.case by (rule entry_bits_fit)
  show "signed_drop_bit 15 (entryHeader a h m) = of_bool a"
    unfolding entryHeader_def by (rule entry_bits_oz)
  have "sint ((word_of_int h :: 32 word) AND mask 5) = h"
    using assms by (intro sint_and_mask) simp_all
  then show "sint (signed_drop_bit 6 (entryHeader a h m) AND 31) = h"
    unfolding entryHeader_def entry_bits_hour by (simp add: mask_31)
  have "sint ((word_of_int m :: 32 word) AND mask 6) = m"
    using assms by (intro sint_and_mask) simp_all
  then show "sint (entryHeader a h m AND 63) = m"
    unfolding entryHeader_def entry_bits_minute by (simp add: mask_63)
qed

lemma amount_word:
  assumes "0 \<le> x" "x \<le> 6553.5" "of_int \<lfloor>x * 10\<rfloor> = x * 10"
  shows "real (unat (toUint16 (x * 10))) / 10 = x"
proof -
  define k where "k = \<lfloor>x * 10\<rfloor>"
  have k: "of_int k = x * 10" using assms by (simp add: k_def)
  have "0 \<le> k" using assms by (simp add: k_def)
  moreover have "k \<le> 65535"
  proof -
    have "x * 10 \<le> 65535" using assms by simp
    then show ?thesis unfolding k_def by (simp add: floor_le_iff)
  qed
  ultimately have "unat (word_of_int k :: 16 word) = nat k"
    by (simp add: unat_eq_nat_uint uint_word_of_int take_bit_int_eq_self)
  then have "real (unat (toUint16 (x * 10))) = of_int k"
    using assms \<open>0 \<le> k\<close> by (simp add: toUint16_def k_def)
  then show ?thesis using k by simp
qed

lemma index_word:
  assumes "0 \<le> i" "i < 65536"
  shows "unat (word_of_int i :: 16 word) = nat i"
  using assms by (simp add: unat_eq_nat_uint uint_word_of_int take_bit_int_eq_self)

lemma Entry_new_stable:
  assumes "validEntry e" "fluid e = Some p"
  shows "Entry_new st (Some p) (Entry.isOZ e) (Some (amount e)) (Some (of_int (hour e)))
           (Some (of_int (minute e))) = e"
proof -
  define k where "k = \<lfloor>amount e * 10\<rfloor>"
  have "of_int \<lfloor>amount e * 10\<rfloor> = amount e * 10"
    using assms(1) unfolding validEntry_def by blast
  then have k: "amount e * 10 = of_int k" unfolding k_def by (rule sym)
  have "Math_round (amount e * 10) = k" unfolding k by (rule Math_round_of_int)
  then have "of_int (Math_round (amount e * 10)) / 10 = amount e"
    using k by simp
  then show ?thesis
    using assms by (simp add: Entry_new_def orZero_def Math_round_of_int validEntry_def)
qed

lemma Entry_encode_record:
  assumes "validEntry e" "fluid e = Some p" "savedAt st p"
  shows "Entry_encode e st = Inr (recordOf st e, st)"
    and "length (recordOf st e) = 3"
    and "Entry_decode st (recordOf st e) = e"
proof -
  let ?r = "[fromCharCode (entryHeader (Entry.isOZ e) (hour e) (minute e)),
             toUint16 (amount e * 10), word_of_int (index (heap st p))]"
  have i: "0 \<le> index (heap st p)" "index (heap st p) < 65536"
    and at: "nthOpt (saved st) (nat (index (heap st p))) = Some p"
    using assms(3) by (simp_all add: savedAt_def)
  have enc: "Entry_encode e st = Inr (?r, st)"
    using assms(2) i by (simp add: Entry_encode_def)
  have v: "0 \<le> hour e" "hour e \<le> 23" "0 \<le> minute e" "minute e \<le> 59"
    and a: "0 \<le> amount e" "amount e \<le> 6553.5" "of_int \<lfloor>amount e * 10\<rfloor> = amount e * 10"
    using assms(1) by (simp_all add: validEntry_def)
  note f = entryHeader_fields [OF v, of "Entry.isOZ e"]
  have c0: "toInt32 (charCodeAt ?r 0) = entryHeader (Entry.isOZ e) (hour e) (minute e)"
    by (simp add: charCodeAt_def f(1))
  have c1: "map_option (\<lambda>c. real (unat c) / 10) (charCodeAt ?r 1) = Some (amount e)"
    using amount_word [OF a] by (simp add: charCodeAt_def)
  have c2: "(case charCodeAt ?r 2 of None \<Rightarrow> None | Some c \<Rightarrow> nthOpt (saved st) (unat c)) = Some p"
    using index_word [OF i] at by (simp add: charCodeAt_def)
  have "Entry_decode st ?r = Entry_new st (Some p) (Entry.isOZ e) (Some (amount e))
          (Some (of_int (hour e))) (Some (of_int (minute e)))"
    unfolding Entry_decode_def Let_def c0 c1 c2 f by simp
  then have dec: "Entry_decode st ?r = e" using Entry_new_stable [OF assms(1,2)] by simp
  have r: "recordOf st e = ?r" by (simp add: recordOf_def enc)
  show "Entry_encode e st = Inr (recordOf st e, st)" unfolding r by (rule enc)
  show "length (recordOf st e) = 3" unfolding r by simp
  show "Entry_decode st (recordOf st e) = e" unfolding r by (rule dec)
qed

text \<open>
  C5. For a valid entry whose fluid is saved at a valid index, \<open>encode\<close> returns a
  record of three words and leaves the registry as it is, and \<open>Entry.decode\<close> of that
  record, against the same registry, is the entry: fluid reference, unit flag, amount,
  hour and minute.
\<close>

theorem Entry_roundtrip:
  assumes "validEntry e" "fluid e = Some p" "savedAt st p"
  shows "\<exists>r. Entry_encode e st = Inr (r, st) \<and> length r = 3 \<and> Entry_decode st r = e"
  using Entry_encode_record [OF assms] by blast

theorem Entry_roundtrip_witness:
  "validEntry sampleEntry \<and> fluid sampleEntry = Some 0 \<and> savedAt loadedRegistry 0
   \<and> (\<exists>r. Entry_encode sampleEntry loadedRegistry = Inr (r, loadedRegistry) \<and> length r = 3
          \<and> Entry_decode loadedRegistry r = sampleEntry)"
proof -
  have v: "validEntry sampleEntry" by (simp add: validEntry_def sampleEntry_def)
  have f: "fluid sampleEntry = Some 0" by (simp add: sampleEntry_def)
  have s: "savedAt loadedRegistry 0" by (simp add: savedAt_def loadedRegistry_def nthOpt_def)
  from v f s Entry_roundtrip [OF v f s] show ?thesis by blast
qed

text \<open>
  C2 fails on the code. \<open>encode\<close> hands the Fluid object, not an array, to \<open>Fluid.save\<close>,
  whose \<open>for ... of\<close> throws; an entry with an unsaved fluid cannot be encoded.
\<close>

theorem Entry_encode_unsaved_throws:
  "index (heap freshRegistry 0) = -1 \<and> Entry_encode sampleEntry freshRegistry = Inl TypeError"
  by (simp add: Entry_encode_def sampleEntry_def freshRegistry_def water_def Fluid_new_def
      Fluid_save_def Let_def)

subsection \<open>Decoding a daily log\<close>

lemma Entry_decode_fluid:
  assumes "saved st @ shown st \<noteq> []"
  shows "\<exists>p. fluid (Entry_decode st x) = Some p"
proof (cases "saved st")
  case Nil
  with assms have "shown st \<noteq> []" by simp
  then show ?thesis
    by (simp add: Entry_decode_def Entry_new_def Let_def nthOpt_def split: option.splits)
next
  case (Cons q qs)
  then show ?thesis
    by (simp add: Entry_decode_def Entry_new_def Let_def nthOpt_def split: option.splits)
qed

lemma addEntry_Some:
  assumes "fluid e = Some p"
  shows "\<exists>dlog'. addEntry st e dlog = Inr dlog' \<and> entries dlog' = entries dlog @ [e]"
  using assms by (simp add: addEntry_def)

lemma DailyLog_decode_loop_total:
  assumes "saved st @ shown st \<noteq> []"
  shows "\<exists>dlog'. DailyLog_decode_loop st d i dlog = Inr dlog'
           \<and> length (entries dlog') = length (entries dlog) + (length d - i + 2) div 3"
  using assms
proof (induction st d i dlog rule: DailyLog_decode_loop.induct)
  case (1 st d i dlog)
  note some = "1.prems"
  show ?case
  proof (cases "i < length d")
    case False
    then show ?thesis by (simp add: DailyLog_decode_loop.simps [of st d i])
  next
    case True
    let ?e = "Entry_decode st (substring i (i + 3) d)"
    obtain p where "fluid ?e = Some p" using Entry_decode_fluid [OF some] by blast
    then obtain dlog1 where a: "addEntry st ?e dlog = Inr dlog1"
      and e: "entries dlog1 = entries dlog @ [?e]"
      using addEntry_Some by blast
    from "1.IH" [OF True a some] obtain dlog' where
      l: "DailyLog_decode_loop st d (i + 3) dlog1 = Inr dlog'"
      and n: "length (entries dlog') = length (entries dlog1) + (length d - (i + 3) + 2) div 3"
      by blast
    have "DailyLog_decode_loop st d i dlog = Inr dlog'"
      using True a l by (simp add: DailyLog_decode_loop.simps [of st d i])
    moreover have "length (entries dlog') = length (entries dlog) + (length d - i + 2) div 3"
      using n e True by simp arith
    ultimately show ?thesis by blast
  qed
qed

text \<open>
  C1, as the code has it. \<open>DailyLog.decode\<close> checks no length and reports no decode
  failure: with a fluid saved or shown, it returns a log for a buffer of any length,
  with one entry for every started group of three words after the header, the missing
  words of the last group read as absent.
\<close>

theorem DailyLog_decode_never_fails:
  assumes "saved st @ shown st \<noteq> []"
  shows "\<exists>dlog. DailyLog_decode st d = Inr dlog \<and> length (entries dlog) = length d div 3"
proof -
  define start where "start = DailyLog_new (signed_drop_bit 15 (toInt32 (charCodeAt d 0)) \<noteq> 0)
    (map_option (\<lambda>c. real (unat c) / 10) (charCodeAt d 1))"
  have none: "entries start = []" by (simp add: start_def DailyLog_new_def)
  have count: "(length d - 2 + 2) div 3 = length d div 3" by arith
  obtain dlog where "DailyLog_decode_loop st d 2 start = Inr dlog"
    and "length (entries dlog) = length (entries start) + (length d - 2 + 2) div 3"
    using DailyLog_decode_loop_total [OF assms, of d 2 start] by blast
  then show ?thesis
    unfolding count none by (simp add: DailyLog_decode_def Let_def start_def)
qed

theorem DailyLog_decode_never_fails_witness:
  "saved loadedRegistry @ shown loadedRegistry = [0, 0] \<and>
   (\<exists>dlog. DailyLog_decode loadedRegistry danglingLog = Inr dlog \<and> length (entries dlog) = 3)"
  using DailyLog_decode_never_fails [of loadedRegistry danglingLog]
  by (simp add: loadedRegistry_def danglingLog_def)

text \<open>
  C1, as the claim has it, fails: the buffer of \<open>2 + 3 * 2 + 1\<close> words decodes to a log
  with three entries, the third made of the one remaining word.
\<close>

theorem DailyLog_decode_dangling_word:
  "length danglingLog = 2 + 3 * 2 + 1 \<and>
   DailyLog_decode loadedRegistry danglingLog =
     Inr \<lparr>goal = 64, total = 16, isOZ = True,
          entries = [\<lparr>fluid = Some 0, isOZ = True, amount = 8, hour = 8, minute = 30\<rparr>,
                     \<lparr>fluid = Some 0, isOZ = True, amount = 8, hour = 8, minute = 45\<rparr>,
                     \<lparr>fluid = Some 0, isOZ = True, amount = 0, hour = 9, minute = 0\<rparr>]\<rparr>"
  by code_simp

subsection \<open>The daily-log codec\<close>

lemma savedEntry_record:
  assumes "savedEntry st e"
  shows "Entry_encode e st = Inr (recordOf st e, st)"
    and "length (recordOf st e) = 3"
    and "Entry_decode st (recordOf st e) = e"
    and "\<exists>p. fluid e = Some p"
proof -
  from assms obtain p where v: "validEntry e" and p: "fluid e = Some p" and s: "savedAt st p"
    by (auto simp: savedEntry_def split: option.splits)
  from Entry_encode_record [OF v p s] p show "Entry_encode e st = Inr (recordOf st e, st)"
    and "length (recordOf st e) = 3"
    and "Entry_decode st (recordOf st e) = e"
    and "\<exists>p. fluid e = Some p" by simp_all
qed

lemma encode_entries_saved:
  assumes "list_all (savedEntry st) es"
  shows "encode_entries es st = Inr (concat (map (recordOf st) es), st)"
  using assms by (induction es) (simp_all add: savedEntry_record(1))

lemma length_records:
  assumes "list_all (savedEntry st) es"
  shows "length (concat (map (recordOf st) es)) = 3 * length es"
  using assms by (induction es) (simp_all add: savedEntry_record(2))

lemma addEntry_share:
  assumes "fluid e = Some p"
  shows "addEntry st e acc = Inr (acc\<lparr>total := total acc + entryShare st (DailyLog.isOZ acc) e,
                                      entries := entries acc @ [e]\<rparr>)"
  using assms by (simp add: addEntry_def entryShare_def)

lemma DailyLog_decode_loop_records:
  assumes "list_all (savedEntry st) es"
  shows "DailyLog_decode_loop st (pre @ concat (map (recordOf st) es)) (length pre) acc
    = Inr (acc\<lparr>total := foldl (\<lambda>t e. t + entryShare st (DailyLog.isOZ acc) e) (total acc) es,
               entries := entries acc @ es\<rparr>)"
  using assms
proof (induction es arbitrary: pre acc)
  case Nil
  then show ?case by (simp add: DailyLog_decode_loop.simps [of st pre "length pre"])
next
  case (Cons e es)
  let ?r = "recordOf st e"
  let ?rest = "concat (map (recordOf st) es)"
  let ?d = "pre @ concat (map (recordOf st) (e # es))"
  from Cons.prems have e: "savedEntry st e" and es: "list_all (savedEntry st) es" by simp_all
  note r = savedEntry_record [OF e]
  from r(4) obtain p where p: "fluid e = Some p" by blast
  let ?acc1 = "acc\<lparr>total := total acc + entryShare st (DailyLog.isOZ acc) e,
                    entries := entries acc @ [e]\<rparr>"
  have lt: "length pre < length ?d" using r(2) by simp
  have sub: "substring (length pre) (length pre + 3) ?d = ?r"
    using r(2) by (simp add: substring_def)
  have d: "?d = (pre @ ?r) @ ?rest" by simp
  have n: "length pre + 3 = length (pre @ ?r)" using r(2) by simp
  have "DailyLog_decode_loop st ?d (length pre) acc
      = DailyLog_decode_loop st ?d (length pre + 3) ?acc1"
    apply (subst DailyLog_decode_loop.simps)
    using lt by (simp only: sub r(3) addEntry_share [OF p] if_True sum.case)
  also have "\<dots> = DailyLog_decode_loop st ((pre @ ?r) @ ?rest) (length (pre @ ?r)) ?acc1"
    unfolding n d ..
  also have "\<dots> = Inr (?acc1\<lparr>total := foldl (\<lambda>t e. t + entryShare st (DailyLog.isOZ ?acc1) e) (total ?acc1) es,
               entries := entries ?acc1 @ es\<rparr>)"
    by (rule Cons.IH [OF es])
  finally show ?case by simp
qed

lemma log_flag_word:
  "(signed_drop_bit 15 (toInt32 (Some (fromCharCode (push_bit 15 (of_bool oz))))) \<noteq> 0) = oz"
  by (cases oz) (simp_all add: toInt32_def fromCharCode_def)

lemma DailyLog_new_stable:
  assumes "0 \<le> g" "g \<le> 6553.5" "of_int \<lfloor>g * 10\<rfloor> = g * 10"
  shows "DailyLog_new oz (Some g) = \<lparr>goal = g, total = 0, isOZ = oz, entries = []\<rparr>"
proof -
  define k where "k = \<lfloor>g * 10\<rfloor>"
  have k: "g * 10 = of_int k" unfolding k_def using assms(3) by (rule sym)
  have "Math_round (g * 10) = k" unfolding k by (rule Math_round_of_int)
  then have "of_int (Math_round (g * 10)) / 10 = g" using k by simp
  then show ?thesis using assms(1,2) by (simp add: DailyLog_new_def orZero_def)
qed

lemma DailyLog_encode_total:
  "DailyLog_encode (dlog\<lparr>total := t\<rparr>) st = DailyLog_encode dlog st"
  by (auto simp: DailyLog_encode_def split: sum.splits)

text \<open>
  C6. For a valid log, \<open>encode\<close> returns a buffer of \<open>2 + 3 * entries.length\<close> words and
  leaves the registry as it is; the buffer does not depend on the total of the log; and
  \<open>DailyLog.decode\<close> of the buffer is the log: the same entries in the same order and the
  same total, which is the total computed from the decoded entries.
\<close>

theorem DailyLog_roundtrip:
  assumes "validLog st dlog"
  shows "\<exists>buf. DailyLog_encode dlog st = Inr (buf, st)
           \<and> length buf = 2 + 3 * length (entries dlog)
           \<and> (\<forall>t. DailyLog_encode (dlog\<lparr>total := t\<rparr>) st = Inr (buf, st))
           \<and> (\<exists>dlog'. DailyLog_decode st buf = Inr dlog'
                  \<and> total dlog' = total dlog
                  \<and> entries dlog' = entries dlog
                  \<and> dlog' = dlog
                  \<and> total dlog' = hydrationTotal st (DailyLog.isOZ dlog') (entries dlog'))"
proof -
  let ?w0 = "fromCharCode (push_bit 15 (of_bool (DailyLog.isOZ dlog)))"
  let ?w1 = "toUint16 (goal dlog * 10)"
  let ?body = "concat (map (recordOf st) (entries dlog))"
  let ?buf = "?w0 # ?w1 # ?body"
  from assms have g: "0 \<le> goal dlog" "goal dlog \<le> 6553.5" "of_int \<lfloor>goal dlog * 10\<rfloor> = goal dlog * 10"
    and es: "list_all (savedEntry st) (entries dlog)"
    and t: "total dlog = hydrationTotal st (DailyLog.isOZ dlog) (entries dlog)"
    unfolding validLog_def by blast+
  have enc: "DailyLog_encode dlog st = Inr (?buf, st)"
    by (simp add: DailyLog_encode_def encode_entries_saved [OF es])
  have len: "length ?buf = 2 + 3 * length (entries dlog)"
    by (simp add: length_records [OF es])
  let ?start = "\<lparr>goal = goal dlog, total = 0, isOZ = DailyLog.isOZ dlog, entries = []\<rparr>"
  have c0: "(signed_drop_bit 15 (toInt32 (charCodeAt ?buf 0)) \<noteq> 0) = DailyLog.isOZ dlog"
    by (simp add: charCodeAt_def log_flag_word)
  have c1: "map_option (\<lambda>c. real (unat c) / 10) (charCodeAt ?buf 1) = Some (goal dlog)"
    using amount_word [OF g] by (simp add: charCodeAt_def)
  have two: "length [?w0, ?w1] = 2" and app: "[?w0, ?w1] @ ?body = ?buf" by simp_all
  have "DailyLog_decode st ?buf = DailyLog_decode_loop st ?buf 2 ?start"
    unfolding DailyLog_decode_def Let_def c0 c1 DailyLog_new_stable [OF g] ..
  also have "\<dots> = DailyLog_decode_loop st ([?w0, ?w1] @ ?body) (length [?w0, ?w1]) ?start"
    unfolding two app ..
  also have "\<dots> = Inr (?start\<lparr>total := foldl (\<lambda>t e. t + entryShare st (DailyLog.isOZ ?start) e)
                                   (total ?start) (entries dlog),
                               entries := entries ?start @ entries dlog\<rparr>)"
    by (rule DailyLog_decode_loop_records [OF es])
  also have "\<dots> = Inr dlog" using t by (simp add: hydrationTotal_def)
  finally have dec: "DailyLog_decode st ?buf = Inr dlog" .
  show ?thesis using enc len dec t by (simp add: DailyLog_encode_total)
qed

theorem DailyLog_roundtrip_witness:
  "validLog loadedRegistry sampleLog
   \<and> (\<exists>buf. DailyLog_encode sampleLog loadedRegistry = Inr (buf, loadedRegistry)
          \<and> length buf = 11
          \<and> DailyLog_decode loadedRegistry buf = Inr sampleLog)"
proof -
  have v: "validLog loadedRegistry sampleLog" by code_simp
  have "length (entries sampleLog) = 3" by (simp add: sampleLog_def)
  with DailyLog_roundtrip [OF v] v show ?thesis by auto
qed

subsection \<open>Registering an entry\<close>

lemma Entry_new_fluid:
  assumes "fluid0 \<noteq> None \<or> shown st \<noteq> []"
  shows "\<exists>p. fluid (Entry_new st fluid0 oz a h m) = Some p"
  using assms by (cases fluid0; cases "shown st") (simp_all add: Entry_new_def nthOpt_def)

text \<open>
  C10. \<open>register\<close>, given a Fluid (or anything else while a fluid is shown, the first
  shown fluid then standing in), appends exactly one entry, the one the constructor makes
  of the arguments and the clock, at the end of the entries; adds to the total that
  entry's amount in the unit of the log times the hydration factor of its fluid; leaves
  the goal, the unit flag and the entries that were there as they are; and returns the log.
\<close>

theorem register_appends:
  assumes "fluid0 \<noteq> None \<or> shown st \<noteq> []"
  shows "\<exists>e p dlog'.
     e = Entry_new st fluid0 isOZ0 amount0 (Some (of_int nowHours)) (Some (of_int nowMinutes))
     \<and> fluid e = Some p
     \<and> register st nowHours nowMinutes fluid0 isOZ0 amount0 dlog = Inr dlog'
     \<and> entries dlog' = entries dlog @ [e]
     \<and> total dlog' = total dlog
          + convertAmount (amount e) (Entry.isOZ e) (DailyLog.isOZ dlog) * hydration (heap st p)
     \<and> goal dlog' = goal dlog
     \<and> DailyLog.isOZ dlog' = DailyLog.isOZ dlog"
proof -
  let ?e = "Entry_new st fluid0 isOZ0 amount0 (Some (of_int nowHours)) (Some (of_int nowMinutes))"
  obtain p where "fluid ?e = Some p" using Entry_new_fluid [OF assms] by blast
  then show ?thesis by (simp add: register_def addEntry_def)
qed

theorem register_appends_witness:
  "\<exists>dlog'. register loadedRegistry 8 30 (Some 0) True (Some 8) (DailyLog_new True (Some 64)) = Inr dlog'
     \<and> entries dlog' = [\<lparr>fluid = Some 0, isOZ = True, amount = 8, hour = 8, minute = 30\<rparr>]
     \<and> total dlog' = 8
     \<and> goal dlog' = 64
     \<and> DailyLog.isOZ dlog' = True"
proof -
  have e: "Entry_new loadedRegistry (Some 0) True (Some 8) (Some (of_int 8)) (Some (of_int 30))
      = \<lparr>fluid = Some 0, isOZ = True, amount = 8, hour = 8, minute = 30\<rparr>"
    by (simp add: Entry_new_def Math_round_def orZero_def)
  have l: "DailyLog_new True (Some 64) = \<lparr>goal = 64, total = 0, isOZ = True, entries = []\<rparr>"
    by (simp add: DailyLog_new_def Math_round_def orZero_def)
  have h: "hydration (heap loadedRegistry 0) = 1"
    by (simp add: loadedRegistry_def water_def Fluid_new_def Let_def Math_round_def orZero_def)
  show ?thesis
    using register_appends [of "Some 0" loadedRegistry True "Some 8" 8 30 "DailyLog_new True (Some 64)"]
    unfolding e l by (auto simp: h convertAmount_def)
qed

subsection \<open>Amounts as text\<close>

lemma decimalDigits_no_point: "46 \<notin> set (decimalDigits n)"
proof (induction n rule: decimalDigits.induct)
  case (1 n)
  have d: "(word_of_nat (48 + k) :: 16 word) \<noteq> 46" if "k < 10" for k
  proof
    assume "(word_of_nat (48 + k) :: 16 word) = 46"
    then have "unat (word_of_nat (48 + k) :: 16 word) = unat (46 :: 16 word)" by (rule arg_cong)
    moreover have "unat (word_of_nat (48 + k) :: 16 word) = 48 + k"
      using that by (simp add: unat_of_nat take_bit_nat_eq_self del: of_nat_add)
    ultimately show False by simp
  qed
  show ?case
  proof (cases "n < 10")
    case True
    then show ?thesis using d [of n] by (simp add: decimalDigits.simps [of n])
  next
    case False
    then show ?thesis using 1 d [of "n mod 10"] by (simp add: decimalDigits.simps [of n])
  qed
qed

lemma decimalDigits_0: "decimalDigits 0 = js ''0''"
  by (simp add: decimalDigits.simps js_def)

lemma signText_no_point: "46 \<notin> set (signText k)"
  by (simp add: signText_def js_def)

lemma numberToString_tenths:
  "numberToString (of_int k / 10) =
     signText k @ decimalDigits (nat \<bar>k\<bar> div 10)
       @ (if nat \<bar>k\<bar> mod 10 = 0 then [] else js ''.'' @ decimalDigits (nat \<bar>k\<bar> mod 10))"
proof -
  have "\<bar>real_of_int k / 10\<bar> * 10 = of_int \<bar>k\<bar>" by simp
  then have "nat \<lfloor>\<bar>real_of_int k / 10\<bar> * 10\<rfloor> = nat \<bar>k\<bar>" by (simp only: floor_of_int)
  moreover have "(real_of_int k / 10 < 0) = (k < 0)" by simp
  ultimately show ?thesis unfolding numberToString_def Let_def signText_def by (simp only:)
qed

lemma numberToString_whole:
  "numberToString (of_int k) = signText k @ decimalDigits (nat \<bar>k\<bar>)"
proof -
  have "\<bar>real_of_int k\<bar> * 10 = of_int (\<bar>k\<bar> * 10)" by simp
  then have "nat \<lfloor>\<bar>real_of_int k\<bar> * 10\<rfloor> = nat \<bar>k\<bar> * 10"
    by (simp only: floor_of_int)
  moreover have "(real_of_int k < 0) = (k < 0)" by simp
  ultimately show ?thesis unfolding numberToString_def Let_def signText_def by simp
qed

text \<open>
  C8, as the code has it. \<open>representAmount\<close> converts and then rounds: for ounces the
  text is the amount rounded to tenths, always with the point and one digit after it,
  followed at once by \<open>oz\<close>; for millilitres it is the amount rounded to a whole number,
  followed at once by \<open>mL\<close>. No space stands between the number and the unit: eight
  ounces read \<open>8.0oz\<close>, and \<open>237mL\<close> in millilitres.
\<close>

theorem representAmount_format:
  "representAmount amt fromOZ True =
     (let k = Math_round (convertAmount amt fromOZ True * 10)
      in signText k @ decimalDigits (nat \<bar>k\<bar> div 10) @ js ''.'' @ decimalDigits (nat \<bar>k\<bar> mod 10)
           @ js ''oz'')
   \<and> representAmount amt fromOZ False =
     (let k = Math_round (convertAmount amt fromOZ False)
      in signText k @ decimalDigits (nat \<bar>k\<bar>) @ js ''mL'')
   \<and> representAmount 8 True True = js ''8.0oz''
   \<and> representAmount 8 True False = js ''237mL''"
proof -
  define k where "k = Math_round (convertAmount amt fromOZ True * 10)"
  have oz: "representAmount amt fromOZ True =
      signText k @ decimalDigits (nat \<bar>k\<bar> div 10) @ js ''.'' @ decimalDigits (nat \<bar>k\<bar> mod 10) @ js ''oz''"
  proof (cases "nat \<bar>k\<bar> mod 10 = 0")
    case True
    then have n: "numberToString (of_int k / 10) = signText k @ decimalDigits (nat \<bar>k\<bar> div 10)"
      by (simp add: numberToString_tenths)
    have "46 \<notin> set (numberToString (of_int k / 10))"
      unfolding n by (simp add: signText_no_point decimalDigits_no_point)
    then show ?thesis
      unfolding representAmount_def Let_def k_def [symmetric] n
      using True by (simp add: decimalDigits_0 js_def)
  next
    case False
    then have n: "numberToString (of_int k / 10) =
        signText k @ decimalDigits (nat \<bar>k\<bar> div 10) @ js ''.'' @ decimalDigits (nat \<bar>k\<bar> mod 10)"
      by (simp add: numberToString_tenths)
    have "46 \<in> set (numberToString (of_int k / 10))"
      unfolding n by (simp add: js_def)
    then show ?thesis
      unfolding representAmount_def Let_def k_def [symmetric] using n by simp
  qed
  have ml: "representAmount amt fromOZ False =
      (let k = Math_round (convertAmount amt fromOZ False)
       in signText k @ decimalDigits (nat \<bar>k\<bar>) @ js ''mL'')"
    by (simp add: representAmount_def Let_def numberToString_whole)
  have ex: "representAmount 8 True True = js ''8.0oz''" "representAmount 8 True False = js ''237mL''"
    by code_simp+
  show ?thesis using oz ml ex by (simp add: Let_def k_def)
qed

text \<open>
  C8, as the claim has it, fails: the texts for eight ounces are not \<open>8.0 oz\<close> and
  \<open>237 mL\<close>.
\<close>

theorem representAmount_examples:
  "representAmount 8 True True = js ''8.0oz'' \<and> representAmount 8 True True \<noteq> js ''8.0 oz''
   \<and> representAmount 8 True False = js ''237mL'' \<and> representAmount 8 True False \<noteq> js ''237 mL''"
  by code_simp

subsection \<open>Calendar properties\<close>



end
